theory Spec2Isabelle
  imports Main
begin

section \<open>The view state of \<open>App\<close> (src/App.tsx)\<close>

text \<open>
  The component \<open>App\<close> holds five pieces of React state, one ref to the search box, and
  three effects. The model is a reducer on the settled state of the component: one step
  is one external event (map load, move end, a click on a category button, a click on
  "search this area", the completion or the rejection of a search in flight), followed by
  the effects React runs for the render that the event causes.

  Numbers are JavaScript numbers; the model keeps their type abstract (\<open>'n\<close>) and takes
  the text that \<open>JSON.stringify\<close> writes for one number as a parameter \<open>numstr\<close>. Every
  theorem below holds for every such rendering.
\<close>

type_synonym 'n bounds = "'n list list"

text \<open>\<open>interface SearchFeature\<close>: an object that may or may not carry \<open>properties\<close>, an open
  dictionary in which \<open>mapbox_id\<close> is looked up by name.\<close>

record feature =
  properties :: "(string \<times> string) list option"

text \<open>One invocation of \<open>searchRef.current.category(searchCategory, {bbox, limit})\<close>.\<close>

record 'n call =
  category_arg :: string
  bbox :: "'n bounds"
  limit :: nat

text \<open>The five \<open>useState\<close> cells (lines 29 to 33).\<close>

record 'n view_state =
  showSearchAreaButton :: bool
  searchCategory :: "string option"
  searchResults :: "feature list"
  mapBounds :: "'n bounds option"
  searchBounds :: "'n bounds option"

text \<open>The component: its state, whether \<open>searchRef.current\<close> holds a \<open>SearchBoxCore\<close>, and the
  searches whose promise is still pending, each with the arguments it was called with
  (the continuation of \<open>performCategorySearch\<close> closes over exactly these).\<close>

record 'n sys =
  view :: "'n view_state"
  searchRef :: bool
  inflight :: "'n call list"

subsection \<open>\<open>JSON.stringify\<close> on \<open>number[][]\<close>\<close>

fun join :: "string \<Rightarrow> string list \<Rightarrow> string" where
  "join sep [] = []"
| "join sep [x] = x"
| "join sep (x # y # ys) = x @ sep @ join sep (y # ys)"

definition stringify_row :: "('n \<Rightarrow> string) \<Rightarrow> 'n list \<Rightarrow> string" where
  "stringify_row numstr row = ''['' @ join '','' (map numstr row) @ '']''"

definition JSON_stringify :: "('n \<Rightarrow> string) \<Rightarrow> 'n bounds \<Rightarrow> string" where
  "JSON_stringify numstr b = ''['' @ join '','' (map (stringify_row numstr) b) @ '']''"

subsection \<open>Truthiness and \<open>boundsChanged\<close> (lines 49 to 52)\<close>

text \<open>\<open>!searchCategory\<close> holds for \<open>undefined\<close> and for the empty string. An array is always
  truthy, so \<open>!boundsA\<close> holds for \<open>undefined\<close> only.\<close>

definition truthy :: "string option \<Rightarrow> bool" where
  "truthy c = (case c of None \<Rightarrow> False | Some s \<Rightarrow> s \<noteq> [])"

definition boundsChanged ::
  "('n \<Rightarrow> string) \<Rightarrow> 'n bounds option \<Rightarrow> 'n bounds option \<Rightarrow> bool" where
  "boundsChanged numstr boundsA boundsB =
     (case boundsA of
        None \<Rightarrow> False
      | Some a \<Rightarrow>
          (case boundsB of
             None \<Rightarrow> False
           | Some b \<Rightarrow> JSON_stringify numstr a \<noteq> JSON_stringify numstr b))"

subsection \<open>The effects\<close>

text \<open>The effect of lines 48 to 59, with dependencies \<open>[mapBounds, searchCategory,
  searchBounds]\<close>.\<close>

definition effect_showSearchAreaButton ::
  "('n \<Rightarrow> string) \<Rightarrow> 'n view_state \<Rightarrow> 'n view_state" where
  "effect_showSearchAreaButton numstr v =
     (if truthy (searchCategory v) \<and> boundsChanged numstr (mapBounds v) (searchBounds v)
      then v\<lparr>showSearchAreaButton := True\<rparr>
      else v\<lparr>showSearchAreaButton := False\<rparr>)"

text \<open>\<open>performCategorySearch\<close> (lines 37 to 46) up to its \<open>await\<close>: the guard, then one call
  of the collaborator. The result is the component with the call pending, and the list
  of collaborator invocations made.\<close>

definition performCategorySearch :: "'n sys \<Rightarrow> 'n sys \<times> 'n call list" where
  "performCategorySearch s =
     (case searchCategory (view s) of
        None \<Rightarrow> (s, [])
      | Some c \<Rightarrow>
          if c = [] then (s, [])
          else (case mapBounds (view s) of
                  None \<Rightarrow> (s, [])
                | Some b \<Rightarrow>
                    if \<not> searchRef s then (s, [])
                    else (let k = \<lparr>category_arg = c, bbox = b, limit = 25\<rparr>
                          in (s\<lparr>inflight := inflight s @ [k]\<rparr>, [k]))))"

text \<open>The rest of \<open>performCategorySearch\<close>, run when the awaited promise resolves with
  \<open>features\<close>: \<open>setSearchResults(features); setSearchBounds(mapBounds)\<close>, where \<open>mapBounds\<close>
  is the value the closure captured, the \<open>bbox\<close> of the call.\<close>

definition search_resolved :: "'n call \<Rightarrow> feature list \<Rightarrow> 'n view_state \<Rightarrow> 'n view_state" where
  "search_resolved k features v = v\<lparr>searchResults := features, searchBounds := Some (bbox k)\<rparr>"

subsection \<open>Events\<close>

datatype 'n event =
    MapLoad "'n bounds"
  | MoveEnd "'n bounds"
  | SelectCategory string
  | ClickSearchArea
  | SearchResolved nat "feature list"
  | SearchRejected nat

definition remove_nth :: "nat \<Rightarrow> 'a list \<Rightarrow> 'a list" where
  "remove_nth i xs = take i xs @ drop (Suc i) xs"

text \<open>
  One event and the effects of the render it causes.
  \<^item> \<open>load\<close> and \<open>moveend\<close> (lines 77 to 88): \<open>setMapBounds\<close> with a fresh array, so the
    effect on \<open>showSearchAreaButton\<close> runs.
  \<^item> A category button (line 123): \<open>setSearchCategory(value)\<close>. When \<open>value\<close> is the state's
    value already, React keeps the state and runs no effect, since no dependency
    changed. Otherwise both effects that depend on \<open>searchCategory\<close> run, in the order of
    their declaration: the one on \<open>showSearchAreaButton\<close>, then \<open>performCategorySearch\<close>
    (lines 103 to 105), which reads \<open>searchCategory\<close> and \<open>mapBounds\<close> of this render.
  \<^item> "Search this area" (lines 134 to 144): the button exists only while
    \<open>showSearchAreaButton\<close> holds; its handler is \<open>performCategorySearch\<close>.
  \<^item> A pending search resolves: the continuation runs and the effect on
    \<open>showSearchAreaButton\<close> follows. A pending search rejects: the \<open>await\<close> throws, the
    continuation is skipped.
  An event that cannot occur (a click on a button that is not rendered, the completion
  of a search that is not pending) leaves the component as it is.
\<close>

definition step :: "('n \<Rightarrow> string) \<Rightarrow> 'n sys \<Rightarrow> 'n event \<Rightarrow> 'n sys \<times> 'n call list" where
  "step numstr s e =
     (case e of
        MapLoad b \<Rightarrow>
          (s\<lparr>view := effect_showSearchAreaButton numstr ((view s)\<lparr>mapBounds := Some b\<rparr>)\<rparr>, [])
      | MoveEnd b \<Rightarrow>
          (s\<lparr>view := effect_showSearchAreaButton numstr ((view s)\<lparr>mapBounds := Some b\<rparr>)\<rparr>, [])
      | SelectCategory c \<Rightarrow>
          if searchCategory (view s) = Some c then (s, [])
          else performCategorySearch
                 (s\<lparr>view := effect_showSearchAreaButton numstr
                                ((view s)\<lparr>searchCategory := Some c\<rparr>)\<rparr>)
      | ClickSearchArea \<Rightarrow>
          if showSearchAreaButton (view s) then performCategorySearch s else (s, [])
      | SearchResolved i features \<Rightarrow>
          if i < length (inflight s)
          then (s\<lparr>view := effect_showSearchAreaButton numstr
                             (search_resolved (inflight s ! i) features (view s)),
                   inflight := remove_nth i (inflight s)\<rparr>, [])
          else (s, [])
      | SearchRejected i \<Rightarrow>
          if i < length (inflight s)
          then (s\<lparr>inflight := remove_nth i (inflight s)\<rparr>, [])
          else (s, []))"

text \<open>The initial values of the \<open>useState\<close> cells and of the ref, and the component after
  the effects of its first render: the button effect, the effect of lines 61 to 100 that
  creates the map and the \<open>SearchBoxCore\<close>, and \<open>performCategorySearch\<close>.\<close>

definition initial :: "'n sys" where
  "initial =
     \<lparr>view = \<lparr>showSearchAreaButton = False, searchCategory = None, searchResults = [],
              mapBounds = None, searchBounds = None\<rparr>,
      searchRef = False, inflight = []\<rparr>"

definition mount :: "('n \<Rightarrow> string) \<Rightarrow> 'n sys" where
  "mount numstr =
     fst (performCategorySearch
            (initial\<lparr>view := effect_showSearchAreaButton numstr (view initial),
                     searchRef := True\<rparr>))"

fun run :: "('n \<Rightarrow> string) \<Rightarrow> 'n sys \<Rightarrow> 'n event list \<Rightarrow> 'n sys" where
  "run numstr s [] = s"
| "run numstr s (e # es) = run numstr (fst (step numstr s e)) es"

subsection \<open>The render pass over the result set (lines 150 to 158)\<close>

datatype js_error = TypeError

record poi_marker =
  key :: "string option"
  marker_feature :: feature
  marker_category :: "string option"

text \<open>\<open>feature.properties.mapbox_id\<close>: reading a property of \<open>undefined\<close> throws; a name that
  the dictionary lacks reads as \<open>undefined\<close>.\<close>

definition marker_of :: "string option \<Rightarrow> feature \<Rightarrow> js_error + poi_marker" where
  "marker_of cat f =
     (case properties f of
        None \<Rightarrow> Inl TypeError
      | Some p \<Rightarrow> Inr \<lparr>key = map_of p ''mapbox_id'', marker_feature = f, marker_category = cat\<rparr>)"

fun map_markers :: "string option \<Rightarrow> feature list \<Rightarrow> js_error + poi_marker list" where
  "map_markers cat [] = Inr []"
| "map_markers cat (f # fs) =
     (case marker_of cat f of
        Inl e \<Rightarrow> Inl e
      | Inr m \<Rightarrow> (case map_markers cat fs of Inl e \<Rightarrow> Inl e | Inr ms \<Rightarrow> Inr (m # ms)))"

definition render_markers :: "'n view_state \<Rightarrow> js_error + poi_marker list" where
  "render_markers v =
     (if length (searchResults v) > 0 then map_markers (searchCategory v) (searchResults v)
      else Inr [])"

subsection \<open>What the theorems below speak of\<close>

text \<open>The relation between the button and the rest of the state that the effect of lines
  48 to 59 establishes.\<close>

definition stale_inv :: "('n \<Rightarrow> string) \<Rightarrow> 'n sys \<Rightarrow> bool" where
  "stale_inv numstr s =
     (showSearchAreaButton (view s) =
        (truthy (searchCategory (view s)) \<and>
         boundsChanged numstr (mapBounds (view s)) (searchBounds (view s))))"

fun search_completes :: "'n event \<Rightarrow> bool" where
  "search_completes (SearchResolved i features) = True"
| "search_completes e = False"

text \<open>Concrete inputs: each number is given as the text \<open>JSON.stringify\<close> writes for it
  (the shortest decimal: \<open>-74\<close> for \<open>-74.00\<close>, \<open>40.7\<close> for \<open>40.70\<close>); \<open>DEFAULT_MAP_BOUNDS\<close>
  (lines 10 to 13) and the bounds \<open>[[-74.00, 40.70], [-73.97, 40.73]]\<close> of the spec's
  panning scenario.\<close>

definition decimal :: "string \<Rightarrow> string" where
  "decimal x = x"

definition DEFAULT_MAP_BOUNDS :: "string bounds" where
  "DEFAULT_MAP_BOUNDS = [[''-74.03189'', ''40.69684''], [''-73.98121'', ''40.72286'']]"

definition panned_bounds :: "string bounds" where
  "panned_bounds = [[''-74'', ''40.7''], [''-73.97'', ''40.73'']]"

definition poi_with_id :: feature where
  "poi_with_id = \<lparr>properties = Some [(''mapbox_id'', ''poi.1''), (''name'', ''Cafe A'')]\<rparr>"

definition poi_without_id :: feature where
  "poi_without_id = \<lparr>properties = Some [(''name'', ''Cafe B'')]\<rparr>"

definition poi_without_properties :: feature where
  "poi_without_properties = \<lparr>properties = None\<rparr>"

section \<open>Basic facts\<close>

lemmas eval_defs = mount_def initial_def step_def effect_showSearchAreaButton_def truthy_def
  performCategorySearch_def boundsChanged_def Let_def search_resolved_def remove_nth_def
  JSON_stringify_def stringify_row_def decimal_def DEFAULT_MAP_BOUNDS_def panned_bounds_def

lemma effect_show [simp]:
  "showSearchAreaButton (effect_showSearchAreaButton numstr v) =
     (truthy (searchCategory v) \<and> boundsChanged numstr (mapBounds v) (searchBounds v))"
  by (simp add: effect_showSearchAreaButton_def)

lemma effect_fields [simp]:
  "searchCategory (effect_showSearchAreaButton numstr v) = searchCategory v"
  "searchResults (effect_showSearchAreaButton numstr v) = searchResults v"
  "mapBounds (effect_showSearchAreaButton numstr v) = mapBounds v"
  "searchBounds (effect_showSearchAreaButton numstr v) = searchBounds v"
  by (simp_all add: effect_showSearchAreaButton_def)

lemma performCategorySearch_view [simp]:
  "view (fst (performCategorySearch s)) = view s"
  by (simp add: performCategorySearch_def Let_def split: option.splits)

lemma performCategorySearch_calls:
  "snd (performCategorySearch s) =
     (if truthy (searchCategory (view s)) \<and> mapBounds (view s) \<noteq> None \<and> searchRef s
      then [\<lparr>category_arg = the (searchCategory (view s)), bbox = the (mapBounds (view s)),
             limit = 25\<rparr>]
      else [])"
  by (simp add: performCategorySearch_def truthy_def Let_def split: option.splits)

lemma performCategorySearch_inflight:
  "inflight (fst (performCategorySearch s)) = inflight s @ snd (performCategorySearch s)"
  by (simp add: performCategorySearch_def Let_def split: option.splits)

lemma mount_view:
  "view (mount numstr) = view initial" "searchRef (mount numstr)" "inflight (mount numstr) = []"
  by (simp_all add: mount_def initial_def effect_showSearchAreaButton_def truthy_def
      performCategorySearch_def)

subsection \<open>The button follows the state after every event\<close>

lemma step_stale_inv: "stale_inv numstr s \<Longrightarrow> stale_inv numstr (fst (step numstr s e))"
  by (cases e) (simp_all add: stale_inv_def step_def search_resolved_def)

lemma mount_stale_inv: "stale_inv numstr (mount numstr)"
  by (simp add: stale_inv_def mount_def initial_def)

text \<open>Where React skips the button effect because no dependency changed by identity
  (\<open>setSearchBounds\<close> with the array the state holds already), running it all the same,
  as \<open>step\<close> does, changes nothing.\<close>

lemma effect_unchanged_deps:
  "stale_inv numstr s \<Longrightarrow> effect_showSearchAreaButton numstr (view s) = view s"
  by (auto simp: stale_inv_def effect_showSearchAreaButton_def)

lemma run_stale_inv: "stale_inv numstr s \<Longrightarrow> stale_inv numstr (run numstr s es)"
  by (induction es arbitrary: s) (simp_all add: step_stale_inv)

lemma step_searchBounds:
  "\<not> search_completes e \<Longrightarrow> searchBounds (view (fst (step numstr s e))) = searchBounds (view s)"
  by (cases e) (simp_all add: step_def)

lemma run_searchBounds:
  "\<forall>e\<in>set es. \<not> search_completes e \<Longrightarrow>
     searchBounds (view (run numstr s es)) = searchBounds (view s)"
  by (induction es arbitrary: s) (simp_all add: step_searchBounds)

lemma step_calls_cases:
  "snd (step numstr s e) = [] \<or>
   snd (step numstr s e) =
     [\<lparr>category_arg = the (searchCategory (view (fst (step numstr s e)))),
       bbox = the (mapBounds (view (fst (step numstr s e)))), limit = 25\<rparr>] \<and>
   truthy (searchCategory (view (fst (step numstr s e)))) \<and>
   mapBounds (view (fst (step numstr s e))) \<noteq> None"
  by (cases e) (simp_all add: step_def performCategorySearch_calls)

text \<open>Every call that a step makes is pending afterwards, so the \<open>bbox\<close> of a pending
  search is the \<open>bbox\<close> the collaborator was called with.\<close>

lemma step_inflight:
  "\<not> search_completes e \<Longrightarrow> (\<forall>i. e \<noteq> SearchRejected i) \<Longrightarrow>
     inflight (fst (step numstr s e)) = inflight s @ snd (step numstr s e)"
  by (cases e) (simp_all add: step_def performCategorySearch_inflight)

lemma map_markers_all:
  "\<forall>f\<in>set fs. properties f \<noteq> None \<Longrightarrow>
     map_markers cat fs =
       Inr (map (\<lambda>f. \<lparr>key = map_of (the (properties f)) ''mapbox_id'', marker_feature = f,
                       marker_category = cat\<rparr>) fs)"
  by (induction fs) (auto simp: marker_of_def)

lemma map_markers_TypeError:
  "\<exists>f\<in>set fs. properties f = None \<Longrightarrow> map_markers cat fs = Inl TypeError"
proof (induction fs)
  case Nil
  then show ?case by simp
next
  case (Cons f fs)
  show ?case
  proof (cases "properties f")
    case None
    then show ?thesis by (simp add: marker_of_def)
  next
    case (Some p)
    with Cons.prems have "\<exists>g\<in>set fs. properties g = None" by auto
    then have "map_markers cat fs = Inl TypeError" by (rule Cons.IH)
    with Some show ?thesis by (simp add: marker_of_def)
  qed
qed

section \<open>\<open>JSON.stringify\<close> and structural equality\<close>

text \<open>
  \<open>boundsChanged\<close> compares texts. When the rendering of numbers is injective and writes
  neither nothing nor a comma nor a closing bracket, two bounds have the same text only
  if they are the same nested list, so the comparison of texts is the structural one.
  (JavaScript's rendering never writes these characters; it is injective except that it
  writes \<open>0\<close> for both zeros and \<open>null\<close> for \<open>NaN\<close> and the infinities.)
\<close>

lemma split_at_first:
  "c \<notin> set x \<Longrightarrow> c \<notin> set y \<Longrightarrow> x @ c # u = y @ c # v \<Longrightarrow> x = y \<and> u = v"
proof (induction x arbitrary: y)
  case Nil
  then show ?case by (cases y) auto
next
  case (Cons a x)
  then show ?case by (cases y) auto
qed

lemma join_eq_Nil:
  "\<forall>x\<in>set xs. x \<noteq> [] \<Longrightarrow> join sep xs = [] \<Longrightarrow> xs = []"
  by (induction sep xs rule: join.induct) auto

lemma join_sep_free_inj:
  "\<forall>x\<in>set xs. x \<noteq> [] \<and> c \<notin> set x \<Longrightarrow> \<forall>y\<in>set ys. y \<noteq> [] \<and> c \<notin> set y \<Longrightarrow>
     join [c] xs = join [c] ys \<Longrightarrow> xs = ys"
proof (induction "[c]" xs arbitrary: ys rule: join.induct)
  case 1
  then show ?case using join_eq_Nil [of ys "[c]"] by simp
next
  case (2 x)
  show ?case
  proof (cases "([c], ys)" rule: join.cases [case_names nil one more])
    case nil
    with 2 show ?thesis by simp
  next
    case (one s y)
    with 2 show ?thesis by simp
  next
    case (more s y y' ys')
    with 2 show ?thesis by auto
  qed
next
  case (3 x x' xs)
  show ?case
  proof (cases "([c], ys)" rule: join.cases [case_names nil one more])
    case nil
    with 3 show ?thesis by simp
  next
    case (one s y)
    with 3 show ?thesis by auto
  next
    case (more s y y' ys')
    with 3 have eq: "x @ c # join [c] (x' # xs) = y @ c # join [c] (y' # ys')"
      by simp
    from 3 more have "c \<notin> set x" "c \<notin> set y" by auto
    from split_at_first [OF this eq]
    have xy: "x = y" and j: "join [c] (x' # xs) = join [c] (y' # ys')"
      by auto
    have a: "\<forall>x\<in>set (x' # xs). x \<noteq> [] \<and> c \<notin> set x" using 3(2) by simp
    have b: "\<forall>y\<in>set (y' # ys'). y \<noteq> [] \<and> c \<notin> set y" using 3(3) more by simp
    have "x' # xs = y' # ys'" by (rule "3.hyps" [OF a b j])
    with xy more show ?thesis by simp
  qed
qed

lemma stringify_row_inj:
  assumes "inj numstr"
    and "\<forall>n. numstr n \<noteq> [] \<and> CHR '','' \<notin> set (numstr n)"
    and "stringify_row numstr r = stringify_row numstr r'"
  shows "r = r'"
proof -
  from assms(3) have "join '','' (map numstr r) = join '','' (map numstr r')"
    by (simp add: stringify_row_def)
  then have "map numstr r = map numstr r'"
    using assms(2) by (intro join_sep_free_inj [of _ "CHR '',''"]) auto
  with assms(1) show ?thesis
    by (simp only: inj_map_eq_map)
qed

lemma join_Cons_neq_Nil: "x \<noteq> [] \<Longrightarrow> join sep (x # xs) \<noteq> []"
  by (cases xs) auto

lemma terminated_neq_Nil: "\<forall>x\<in>set (x' # xs). \<exists>p. x = p @ [d] \<and> d \<notin> set p \<Longrightarrow> x' \<noteq> []"
  by auto

lemma join_terminated_inj:
  "\<forall>x\<in>set xs. \<exists>p. x = p @ [d] \<and> d \<notin> set p \<Longrightarrow>
   \<forall>y\<in>set ys. \<exists>q. y = q @ [d] \<and> d \<notin> set q \<Longrightarrow>
     join sep xs = join sep ys \<Longrightarrow> xs = ys"
proof (induction sep xs arbitrary: ys rule: join.induct)
  case (1 sep)
  have "\<forall>y\<in>set ys. y \<noteq> []" using 1(2) by auto
  then show ?case using join_eq_Nil [of ys sep] 1(3) by simp
next
  case (2 sep x)
  from 2(1) obtain p where x: "x = p @ [d]" "d \<notin> set p" by auto
  show ?case
  proof (cases "(sep, ys)" rule: join.cases [case_names nil one more])
    case nil
    with 2(3) x show ?thesis by simp
  next
    case (one s y)
    with 2(3) show ?thesis by simp
  next
    case (more s y y' ys')
    with 2(2) obtain q where y: "y = q @ [d]" "d \<notin> set q" by auto
    from 2(3) more x y have "p @ d # [] = q @ d # (sep @ join sep (y' # ys'))" by simp
    from split_at_first [OF x(2) y(2) this] have e: "[] = sep @ join sep (y' # ys')" by blast
    from 2(2) more have "y' \<noteq> []" by auto
    then have "join sep (y' # ys') \<noteq> []" by (rule join_Cons_neq_Nil)
    with e show ?thesis by (metis append_is_Nil_conv)
  qed
next
  case (3 sep x x' xs)
  from 3(2) obtain p where x: "x = p @ [d]" "d \<notin> set p" by auto
  from 3(2) have x': "x' \<noteq> []" by auto
  show ?case
  proof (cases "(sep, ys)" rule: join.cases [case_names nil one more])
    case nil
    with 3(4) x show ?thesis by simp
  next
    case (one s y)
    with 3(3) obtain q where y: "y = q @ [d]" "d \<notin> set q" by auto
    from 3(4) one x y have "p @ d # (sep @ join sep (x' # xs)) = q @ d # []" by simp
    from split_at_first [OF x(2) y(2) this] have e: "sep @ join sep (x' # xs) = []" by blast
    from x' have "join sep (x' # xs) \<noteq> []" by (rule join_Cons_neq_Nil)
    with e show ?thesis by (metis append_is_Nil_conv)
  next
    case (more s y y' ys')
    with 3(3) obtain q where y: "y = q @ [d]" "d \<notin> set q" by auto
    from 3(4) more x y
    have "p @ d # (sep @ join sep (x' # xs)) = q @ d # (sep @ join sep (y' # ys'))" by simp
    from split_at_first [OF x(2) y(2) this]
    have pq: "p = q" and j: "join sep (x' # xs) = join sep (y' # ys')" by auto
    have a: "\<forall>x\<in>set (x' # xs). \<exists>p. x = p @ [d] \<and> d \<notin> set p" using 3(2) by simp
    have b: "\<forall>y\<in>set (y' # ys'). \<exists>q. y = q @ [d] \<and> d \<notin> set q" using 3(3) more by simp
    have "x' # xs = y' # ys'" by (rule "3.IH" [OF a b j])
    with pq x y more show ?thesis by simp
  qed
qed

lemma set_join_subset: "set (join sep xs) \<subseteq> set sep \<union> (\<Union>x\<in>set xs. set x)"
  by (induction sep xs rule: join.induct) auto

lemma stringify_row_terminated:
  "\<forall>n. CHR '']'' \<notin> set (numstr n) \<Longrightarrow>
     \<exists>p. stringify_row numstr r = p @ '']'' \<and> CHR '']'' \<notin> set p"
proof -
  assume h: "\<forall>n. CHR '']'' \<notin> set (numstr n)"
  have "set (join '','' (map numstr r)) \<subseteq> set '','' \<union> (\<Union>n\<in>set r. set (numstr n))"
    using set_join_subset [of "'',''" "map numstr r"] by auto
  with h have "CHR '']'' \<notin> set (''['' @ join '','' (map numstr r))"
    by auto
  then show ?thesis
    unfolding stringify_row_def by (intro exI [of _ "''['' @ join '','' (map numstr r)"]) simp
qed

lemma JSON_stringify_inj:
  assumes "inj numstr"
    and "\<forall>n. numstr n \<noteq> [] \<and> CHR '','' \<notin> set (numstr n) \<and> CHR '']'' \<notin> set (numstr n)"
  shows "(JSON_stringify numstr a = JSON_stringify numstr b) = (a = b)"
proof
  assume "JSON_stringify numstr a = JSON_stringify numstr b"
  then have "join '','' (map (stringify_row numstr) a) = join '','' (map (stringify_row numstr) b)"
    by (simp add: JSON_stringify_def)
  then have "map (stringify_row numstr) a = map (stringify_row numstr) b"
    using assms(2) stringify_row_terminated [of numstr]
    by (intro join_terminated_inj [of _ "CHR '']''"]) auto
  moreover have "inj (stringify_row numstr)"
    using assms stringify_row_inj [of numstr] by (auto simp: inj_def)
  ultimately show "a = b" by (simp only: inj_map_eq_map)
qed simp


lemma boundsChanged_structural:
  assumes "inj numstr"
    and "\<forall>n. numstr n \<noteq> [] \<and> CHR '','' \<notin> set (numstr n) \<and> CHR '']'' \<notin> set (numstr n)"
  shows "boundsChanged numstr (Some a) (Some b) = (a \<noteq> b)"
  using JSON_stringify_inj [OF assms] by (simp add: boundsChanged_def)

section \<open>The bounds comparison\<close>

text \<open>
  C9. The comparison is symmetric and irreflexive: for all bounds values \<open>A\<close> and \<open>B\<close>,
  \<open>undefined\<close> included, \<open>changed(A, B) = changed(B, A)\<close> and \<open>changed(A, A) = false\<close>.
\<close>

theorem boundsChanged_symmetric_irreflexive:
  "boundsChanged numstr A B = boundsChanged numstr B A \<and> boundsChanged numstr A A = False"
  by (auto simp: boundsChanged_def split: option.splits)

text \<open>
  C2, as the code has it. The guard of line 50 answers \<open>false\<close> as soon as one side is
  \<open>undefined\<close>: for every bounds value \<open>b\<close>, defined or not, \<open>changed(undefined, b) = false\<close>
  and \<open>changed(b, undefined) = false\<close>; in particular \<open>changed(undefined, undefined) = false\<close>.
\<close>

theorem boundsChanged_undefined_false:
  "boundsChanged numstr None b = False \<and> boundsChanged numstr b None = False"
  by (simp add: boundsChanged_def split: option.splits)

text \<open>
  C2 as written asks \<open>changed(undefined, b) = true\<close> for every defined \<open>b\<close>. At
  \<open>DEFAULT_MAP_BOUNDS\<close> the code answers \<open>false\<close>.
\<close>

theorem boundsChanged_undefined_defined_counterexample:
  "\<not> boundsChanged decimal None (Some DEFAULT_MAP_BOUNDS)"
  by (simp add: boundsChanged_def)

section \<open>The "search this area" button\<close>

text \<open>
  C1, as the code has it. In every state the component reaches from its first render,
  the button is shown if and only if a category is selected (a non-empty string), the
  current bounds and the bounds of the last completed search are both defined, and
  their \<open>JSON.stringify\<close> texts differ; in particular the button is hidden whenever no
  category is selected, and for every pair of bounds values the button effect hides it
  when no category is selected.
\<close>

theorem affordance_shown_iff:
  "(showSearchAreaButton (view (run numstr (mount numstr) es)) =
      (truthy (searchCategory (view (run numstr (mount numstr) es))) \<and>
       (\<exists>a b. mapBounds (view (run numstr (mount numstr) es)) = Some a \<and>
              searchBounds (view (run numstr (mount numstr) es)) = Some b \<and>
              JSON_stringify numstr a \<noteq> JSON_stringify numstr b)))
   \<and> (searchCategory (view (run numstr (mount numstr) es)) = None \<longrightarrow>
        \<not> showSearchAreaButton (view (run numstr (mount numstr) es)))
   \<and> (searchCategory v = None \<longrightarrow>
        \<not> showSearchAreaButton (effect_showSearchAreaButton numstr v))"
proof -
  have "stale_inv numstr (run numstr (mount numstr) es)"
    by (rule run_stale_inv [OF mount_stale_inv])
  then show ?thesis
    by (auto simp: stale_inv_def boundsChanged_def truthy_def split: option.splits)
qed

text \<open>The theorem at the state after map load and one pan, no category chosen, and at
  a state without category whose two bounds differ.\<close>

theorem affordance_shown_iff_witness:
  "searchCategory (view (run decimal (mount decimal)
       [MapLoad DEFAULT_MAP_BOUNDS, MoveEnd panned_bounds])) = None \<and>
   \<not> showSearchAreaButton (view (run decimal (mount decimal)
       [MapLoad DEFAULT_MAP_BOUNDS, MoveEnd panned_bounds])) \<and>
   \<not> showSearchAreaButton (effect_showSearchAreaButton decimal
       \<lparr>showSearchAreaButton = True, searchCategory = None, searchResults = [],
        mapBounds = Some panned_bounds, searchBounds = Some DEFAULT_MAP_BOUNDS\<rparr>)"
proof -
  have h: "searchCategory (view (run decimal (mount decimal)
       [MapLoad DEFAULT_MAP_BOUNDS, MoveEnd panned_bounds])) = None"
    by (simp add: eval_defs)
  have g: "searchCategory
       \<lparr>showSearchAreaButton = True, searchCategory = None, searchResults = [],
        mapBounds = Some panned_bounds, searchBounds = Some DEFAULT_MAP_BOUNDS\<rparr> = None"
    by simp
  show ?thesis
    using h g
      affordance_shown_iff [of decimal "[MapLoad DEFAULT_MAP_BOUNDS, MoveEnd panned_bounds]"
        "\<lparr>showSearchAreaButton = True, searchCategory = None, searchResults = [],
          mapBounds = Some panned_bounds, searchBounds = Some DEFAULT_MAP_BOUNDS\<rparr>"]
    by blast
qed

text \<open>
  C1 as written asks for the button whenever a category is selected and the two bounds
  differ structurally. When "coffee" is chosen before the map has loaded, and the map
  then loads, a category is selected, the current bounds are defined and the last-search
  bounds are \<open>undefined\<close>, so the two differ; the button is hidden.
\<close>

theorem affordance_structural_counterexample:
  "searchCategory (view (run decimal (mount decimal)
       [SelectCategory ''coffee'', MapLoad DEFAULT_MAP_BOUNDS])) = Some ''coffee'' \<and>
   mapBounds (view (run decimal (mount decimal)
       [SelectCategory ''coffee'', MapLoad DEFAULT_MAP_BOUNDS])) \<noteq>
   searchBounds (view (run decimal (mount decimal)
       [SelectCategory ''coffee'', MapLoad DEFAULT_MAP_BOUNDS])) \<and>
   \<not> showSearchAreaButton (view (run decimal (mount decimal)
       [SelectCategory ''coffee'', MapLoad DEFAULT_MAP_BOUNDS]))"
  by (simp add: eval_defs)

text \<open>
  C10. While no search has completed, the last-search bounds stay \<open>undefined\<close> and the
  button is hidden, after every sequence of category selections, viewport changes,
  clicks and rejected searches.
\<close>

theorem no_affordance_before_first_completion:
  "(\<forall>e\<in>set es. \<not> search_completes e) \<longrightarrow>
     searchBounds (view (run numstr (mount numstr) es)) = None \<and>
     \<not> showSearchAreaButton (view (run numstr (mount numstr) es))"
proof
  assume h: "\<forall>e\<in>set es. \<not> search_completes e"
  have inv: "stale_inv numstr (run numstr (mount numstr) es)"
    by (rule run_stale_inv [OF mount_stale_inv])
  have none: "searchBounds (view (run numstr (mount numstr) es)) = None"
    using run_searchBounds [OF h, of numstr "mount numstr"]
    by (simp add: mount_view initial_def)
  from inv none show "searchBounds (view (run numstr (mount numstr) es)) = None \<and>
     \<not> showSearchAreaButton (view (run numstr (mount numstr) es))"
    by (simp add: stale_inv_def boundsChanged_def split: option.splits)
qed

theorem no_affordance_before_first_completion_witness:
  "searchCategory (view (run decimal (mount decimal)
      [SelectCategory ''coffee'', MapLoad DEFAULT_MAP_BOUNDS, MoveEnd panned_bounds,
       SelectCategory ''bar'', SearchRejected 0])) = Some ''bar'' \<and>
   mapBounds (view (run decimal (mount decimal)
      [SelectCategory ''coffee'', MapLoad DEFAULT_MAP_BOUNDS, MoveEnd panned_bounds,
       SelectCategory ''bar'', SearchRejected 0])) = Some panned_bounds \<and>
   searchBounds (view (run decimal (mount decimal)
      [SelectCategory ''coffee'', MapLoad DEFAULT_MAP_BOUNDS, MoveEnd panned_bounds,
       SelectCategory ''bar'', SearchRejected 0])) = None \<and>
   \<not> showSearchAreaButton (view (run decimal (mount decimal)
      [SelectCategory ''coffee'', MapLoad DEFAULT_MAP_BOUNDS, MoveEnd panned_bounds,
       SelectCategory ''bar'', SearchRejected 0]))"
proof -
  have h: "\<forall>e\<in>set [SelectCategory ''coffee'', MapLoad DEFAULT_MAP_BOUNDS,
                    MoveEnd panned_bounds, SelectCategory ''bar'', SearchRejected 0].
             \<not> search_completes e"
    by simp
  have c: "searchCategory (view (run decimal (mount decimal)
      [SelectCategory ''coffee'', MapLoad DEFAULT_MAP_BOUNDS, MoveEnd panned_bounds,
       SelectCategory ''bar'', SearchRejected 0])) = Some ''bar''"
    by (simp add: eval_defs)
  have m: "mapBounds (view (run decimal (mount decimal)
      [SelectCategory ''coffee'', MapLoad DEFAULT_MAP_BOUNDS, MoveEnd panned_bounds,
       SelectCategory ''bar'', SearchRejected 0])) = Some panned_bounds"
    by (simp add: eval_defs)
  show ?thesis
    using h c m
      no_affordance_before_first_completion
        [of "[SelectCategory ''coffee'', MapLoad DEFAULT_MAP_BOUNDS, MoveEnd panned_bounds,
              SelectCategory ''bar'', SearchRejected 0]" decimal]
    by blast
qed

section \<open>Issuing a search\<close>

text \<open>
  C3, as the code has it. A click on the button of the category that is already active
  changes nothing and calls nothing: \<open>setSearchCategory\<close> receives the value the state
  holds, so the effect of lines 103 to 105, which depends on \<open>searchCategory\<close>, does not
  run. The automatic search is issued when the selection changes the category.
\<close>

theorem select_active_category_noop:
  "searchCategory (view s) = Some c \<Longrightarrow> step numstr s (SelectCategory c) = (s, [])"
  by (simp add: step_def)

theorem select_active_category_noop_witness:
  "searchCategory (view (run decimal (mount decimal)
      [MapLoad DEFAULT_MAP_BOUNDS, SelectCategory ''coffee'', SearchResolved 0 []])) =
     Some ''coffee'' \<and>
   mapBounds (view (run decimal (mount decimal)
      [MapLoad DEFAULT_MAP_BOUNDS, SelectCategory ''coffee'', SearchResolved 0 []])) =
     Some DEFAULT_MAP_BOUNDS \<and>
   step decimal
     (run decimal (mount decimal)
        [MapLoad DEFAULT_MAP_BOUNDS, SelectCategory ''coffee'', SearchResolved 0 []])
     (SelectCategory ''coffee'') =
     (run decimal (mount decimal)
        [MapLoad DEFAULT_MAP_BOUNDS, SelectCategory ''coffee'', SearchResolved 0 []], [])"
proof -
  have h: "searchCategory (view (run decimal (mount decimal)
      [MapLoad DEFAULT_MAP_BOUNDS, SelectCategory ''coffee'', SearchResolved 0 []])) =
             Some ''coffee''"
    by (simp add: eval_defs)
  have m: "mapBounds (view (run decimal (mount decimal)
      [MapLoad DEFAULT_MAP_BOUNDS, SelectCategory ''coffee'', SearchResolved 0 []])) =
             Some DEFAULT_MAP_BOUNDS"
    by (simp add: eval_defs)
  show ?thesis
    using h m select_active_category_noop [OF h, of decimal] by blast
qed

text \<open>
  C3 as written asks that selecting the active category invokes the collaborator again.
  After the map has loaded, "coffee" has been chosen and its search has completed, a
  second click on "coffee" makes no call.
\<close>

theorem select_active_category_counterexample:
  "searchCategory (view (run decimal (mount decimal)
      [MapLoad DEFAULT_MAP_BOUNDS, SelectCategory ''coffee'', SearchResolved 0 []])) =
     Some ''coffee'' \<and>
   snd (step decimal
          (run decimal (mount decimal)
             [MapLoad DEFAULT_MAP_BOUNDS, SelectCategory ''coffee'', SearchResolved 0 []])
          (SelectCategory ''coffee'')) = []"
  by (simp add: eval_defs)

text \<open>
  C4. A selection that changes the category, and a click on "search this area", each
  make exactly one call of the collaborator, with the selected category, the current
  bounds and \<open>limit = 25\<close>; no event makes more than one call, and every call an event
  makes carries the category and the bounds the state holds at that moment, and
  \<open>limit = 25\<close>.
\<close>

theorem search_call_once_with_current_args:
  "(c \<noteq> [] \<and> searchCategory (view s) \<noteq> Some c \<and> mapBounds (view s) = Some b \<and> searchRef s
      \<longrightarrow> snd (step numstr s (SelectCategory c)) = [\<lparr>category_arg = c, bbox = b, limit = 25\<rparr>])
   \<and> (showSearchAreaButton (view s) \<and> searchCategory (view s) = Some c' \<and> c' \<noteq> [] \<and>
      mapBounds (view s) = Some b \<and> searchRef s
      \<longrightarrow> snd (step numstr s ClickSearchArea) = [\<lparr>category_arg = c', bbox = b, limit = 25\<rparr>])
   \<and> length (snd (step numstr s e)) \<le> 1
   \<and> (\<forall>k \<in> set (snd (step numstr s e)).
        searchCategory (view (fst (step numstr s e))) = Some (category_arg k) \<and>
        mapBounds (view (fst (step numstr s e))) = Some (bbox k) \<and> limit k = 25)"
proof -
  have a: "c \<noteq> [] \<and> searchCategory (view s) \<noteq> Some c \<and> mapBounds (view s) = Some b \<and> searchRef s
      \<longrightarrow> snd (step numstr s (SelectCategory c)) = [\<lparr>category_arg = c, bbox = b, limit = 25\<rparr>]"
    by (simp add: step_def performCategorySearch_calls truthy_def)
  have b: "showSearchAreaButton (view s) \<and> searchCategory (view s) = Some c' \<and> c' \<noteq> [] \<and>
      mapBounds (view s) = Some b \<and> searchRef s
      \<longrightarrow> snd (step numstr s ClickSearchArea) = [\<lparr>category_arg = c', bbox = b, limit = 25\<rparr>]"
    by (simp add: step_def performCategorySearch_calls truthy_def)
  have c: "length (snd (step numstr s e)) \<le> 1"
    using step_calls_cases [of numstr s e] by auto
  have d: "\<forall>k \<in> set (snd (step numstr s e)).
        searchCategory (view (fst (step numstr s e))) = Some (category_arg k) \<and>
        mapBounds (view (fst (step numstr s e))) = Some (bbox k) \<and> limit k = 25"
    using step_calls_cases [of numstr s e] by (auto simp: truthy_def split: option.splits)
  from a b c d show ?thesis by blast
qed

text \<open>The theorem in the spec's scenario: map loaded, "museum" searched, the map panned.
  Both a click on "search this area" and a click on "bar" make one call with the panned
  bounds.\<close>

theorem search_call_once_with_current_args_witness:
  "snd (step decimal
          (run decimal (mount decimal)
             [MapLoad DEFAULT_MAP_BOUNDS, SelectCategory ''museum'', SearchResolved 0 [],
              MoveEnd panned_bounds])
          (SelectCategory ''bar'')) =
     [\<lparr>category_arg = ''bar'', bbox = panned_bounds, limit = 25\<rparr>] \<and>
   snd (step decimal
          (run decimal (mount decimal)
             [MapLoad DEFAULT_MAP_BOUNDS, SelectCategory ''museum'', SearchResolved 0 [],
              MoveEnd panned_bounds])
          ClickSearchArea) =
     [\<lparr>category_arg = ''museum'', bbox = panned_bounds, limit = 25\<rparr>] \<and>
   length (snd (step decimal
          (run decimal (mount decimal)
             [MapLoad DEFAULT_MAP_BOUNDS, SelectCategory ''museum'', SearchResolved 0 [],
              MoveEnd panned_bounds])
          ClickSearchArea)) \<le> 1"
proof -
  let ?s = "run decimal (mount decimal)
             [MapLoad DEFAULT_MAP_BOUNDS, SelectCategory ''museum'', SearchResolved 0 [],
              MoveEnd panned_bounds]"
  have v: "view ?s = \<lparr>showSearchAreaButton = True, searchCategory = Some ''museum'',
                      searchResults = [], mapBounds = Some panned_bounds,
                      searchBounds = Some DEFAULT_MAP_BOUNDS\<rparr>"
    by (simp add: eval_defs)
  have r: "searchRef ?s"
    by (simp add: eval_defs)
  have h1: "''bar'' \<noteq> [] \<and> searchCategory (view ?s) \<noteq> Some ''bar'' \<and>
            mapBounds (view ?s) = Some panned_bounds \<and> searchRef ?s"
    using v r by simp
  have h2: "showSearchAreaButton (view ?s) \<and> searchCategory (view ?s) = Some ''museum'' \<and>
            ''museum'' \<noteq> [] \<and> mapBounds (view ?s) = Some panned_bounds \<and> searchRef ?s"
    using v r by simp
  show ?thesis
    using h1 h2
      search_call_once_with_current_args
        [of "''bar''" ?s panned_bounds decimal "''museum''" ClickSearchArea]
    by blast
qed

text \<open>
  C6. When no category is selected (or the selected one is the empty string), or no
  bounds have been captured yet, \<open>performCategorySearch\<close> is a no-op, and so is a click on
  "search this area": the collaborator is not called and the component is unchanged.
  Selecting a category while the bounds are \<open>undefined\<close> calls nothing, leaves no search
  pending, leaves results, last-search bounds and current bounds as they were, and the
  button hidden.
\<close>

theorem trigger_guard_noop:
  "(\<not> truthy (searchCategory (view s)) \<or> mapBounds (view s) = None \<longrightarrow>
      performCategorySearch s = (s, []) \<and> step numstr s ClickSearchArea = (s, []))
   \<and> (mapBounds (view s) = None \<longrightarrow>
        snd (step numstr s (SelectCategory c)) = [] \<and>
        inflight (fst (step numstr s (SelectCategory c))) = inflight s \<and>
        searchResults (view (fst (step numstr s (SelectCategory c)))) = searchResults (view s) \<and>
        searchBounds (view (fst (step numstr s (SelectCategory c)))) = searchBounds (view s) \<and>
        mapBounds (view (fst (step numstr s (SelectCategory c)))) = None \<and>
        (\<not> showSearchAreaButton (view s) \<longrightarrow>
           \<not> showSearchAreaButton (view (fst (step numstr s (SelectCategory c))))))"
proof -
  have a: "\<not> truthy (searchCategory (view s)) \<or> mapBounds (view s) = None \<longrightarrow>
      performCategorySearch s = (s, [])"
    by (auto simp: performCategorySearch_def truthy_def split: option.splits)
  then have b: "\<not> truthy (searchCategory (view s)) \<or> mapBounds (view s) = None \<longrightarrow>
      step numstr s ClickSearchArea = (s, [])"
    by (simp add: step_def)
  have c: "mapBounds (view s) = None \<longrightarrow>
        snd (step numstr s (SelectCategory c)) = [] \<and>
        inflight (fst (step numstr s (SelectCategory c))) = inflight s \<and>
        searchResults (view (fst (step numstr s (SelectCategory c)))) = searchResults (view s) \<and>
        searchBounds (view (fst (step numstr s (SelectCategory c)))) = searchBounds (view s) \<and>
        mapBounds (view (fst (step numstr s (SelectCategory c)))) = None \<and>
        (\<not> showSearchAreaButton (view s) \<longrightarrow>
           \<not> showSearchAreaButton (view (fst (step numstr s (SelectCategory c)))))"
    by (simp add: step_def performCategorySearch_calls performCategorySearch_inflight
        boundsChanged_def)
  from a b c show ?thesis by blast
qed

text \<open>The theorem right after the first render: nothing selected, the map not loaded.\<close>

theorem trigger_guard_noop_witness:
  "mapBounds (view (mount decimal)) = None \<and>
   \<not> showSearchAreaButton (view (mount decimal)) \<and>
   performCategorySearch (mount decimal) = (mount decimal, []) \<and>
   step decimal (mount decimal) ClickSearchArea = (mount decimal, []) \<and>
   snd (step decimal (mount decimal) (SelectCategory ''coffee'')) = [] \<and>
   inflight (fst (step decimal (mount decimal) (SelectCategory ''coffee''))) = [] \<and>
   \<not> showSearchAreaButton (view (fst (step decimal (mount decimal) (SelectCategory ''coffee''))))"
proof -
  have h: "mapBounds (view (mount decimal)) = None"
    by (simp add: mount_view initial_def)
  have n: "\<not> showSearchAreaButton (view (mount decimal))"
    by (simp add: mount_view initial_def)
  have i: "inflight (mount decimal) = []"
    by (simp add: mount_view)
  show ?thesis
    using h n i trigger_guard_noop [of "mount decimal" decimal "''coffee''"]
    by simp
qed

section \<open>Completion and failure of a search\<close>

text \<open>
  C5. When a pending search completes, the result set becomes the returned features and
  the last-search bounds become the \<open>bbox\<close> that search was called with; if the current
  bounds are still that \<open>bbox\<close>, the button is hidden afterwards.
\<close>

theorem search_completion_snapshot:
  "i < length (inflight s) \<Longrightarrow>
     searchResults (view (fst (step numstr s (SearchResolved i features)))) = features \<and>
     searchBounds (view (fst (step numstr s (SearchResolved i features)))) =
       Some (bbox (inflight s ! i)) \<and>
     (mapBounds (view s) = Some (bbox (inflight s ! i)) \<longrightarrow>
        \<not> showSearchAreaButton (view (fst (step numstr s (SearchResolved i features)))))"
  by (simp add: step_def search_resolved_def boundsChanged_def)

text \<open>The theorem in the spec's scenario: map loaded, "museum" selected, the search
  returns two features.\<close>

theorem search_completion_snapshot_witness:
  "inflight (run decimal (mount decimal) [MapLoad DEFAULT_MAP_BOUNDS, SelectCategory ''museum'']) =
     [\<lparr>category_arg = ''museum'', bbox = DEFAULT_MAP_BOUNDS, limit = 25\<rparr>] \<and>
   searchResults (view (fst (step decimal
       (run decimal (mount decimal) [MapLoad DEFAULT_MAP_BOUNDS, SelectCategory ''museum''])
       (SearchResolved 0 [poi_with_id, poi_without_id])))) = [poi_with_id, poi_without_id] \<and>
   searchBounds (view (fst (step decimal
       (run decimal (mount decimal) [MapLoad DEFAULT_MAP_BOUNDS, SelectCategory ''museum''])
       (SearchResolved 0 [poi_with_id, poi_without_id])))) = Some DEFAULT_MAP_BOUNDS \<and>
   \<not> showSearchAreaButton (view (fst (step decimal
       (run decimal (mount decimal) [MapLoad DEFAULT_MAP_BOUNDS, SelectCategory ''museum''])
       (SearchResolved 0 [poi_with_id, poi_without_id]))))"
proof -
  let ?s = "run decimal (mount decimal) [MapLoad DEFAULT_MAP_BOUNDS, SelectCategory ''museum'']"
  have f: "inflight ?s = [\<lparr>category_arg = ''museum'', bbox = DEFAULT_MAP_BOUNDS, limit = 25\<rparr>]"
    by (simp add: eval_defs)
  have m: "mapBounds (view ?s) = Some DEFAULT_MAP_BOUNDS"
    by (simp add: eval_defs)
  have h: "0 < length (inflight ?s)"
    using f by simp
  show ?thesis
    using f m search_completion_snapshot [OF h, of decimal "[poi_with_id, poi_without_id]"]
    by simp
qed

text \<open>
  C7. When a pending search rejects, the \<open>await\<close> throws before either setter is
  reached: result set, last-search bounds, category, current bounds and button are what
  they were, and no call is made.
\<close>

theorem search_rejected_keeps_view:
  "view (fst (step numstr s (SearchRejected i))) = view s \<and>
   searchRef (fst (step numstr s (SearchRejected i))) = searchRef s \<and>
   snd (step numstr s (SearchRejected i)) = []"
  by (simp add: step_def)

section \<open>The render pass over the result set\<close>

text \<open>
  C8, as the code has it. The render pass drops no feature. When every feature of the
  result set carries a \<open>properties\<close> object, the pass does not throw and yields one
  \<open>POIMarker\<close> element per feature, in the order of the result set, keyed by the feature's
  \<open>mapbox_id\<close>; a feature whose \<open>properties\<close> lack \<open>mapbox_id\<close> gets its element all the same,
  with key \<open>undefined\<close>. When some feature carries no \<open>properties\<close> object, so that its
  identifier cannot even be read, the pass throws a \<open>TypeError\<close>.
\<close>

theorem render_markers_every_feature_or_TypeError:
  "render_markers v =
     (if \<forall>f\<in>set (searchResults v). properties f \<noteq> None
      then Inr (map (\<lambda>f. \<lparr>key = map_of (the (properties f)) ''mapbox_id'', marker_feature = f,
                            marker_category = searchCategory v\<rparr>) (searchResults v))
      else Inl TypeError)"
proof (cases "\<forall>f\<in>set (searchResults v). properties f \<noteq> None")
  case True
  then show ?thesis
    by (simp add: render_markers_def map_markers_all)
next
  case False
  then have e: "\<exists>f\<in>set (searchResults v). properties f = None"
    by simp
  then have "searchResults v \<noteq> []"
    by auto
  with e False show ?thesis
    by (simp add: render_markers_def map_markers_TypeError)
qed

text \<open>The theorem at a result set of one feature with and one without \<open>mapbox_id\<close>, and at
  the same set followed by a feature without \<open>properties\<close>.\<close>

theorem render_markers_every_feature_or_TypeError_witness:
  "properties poi_with_id \<noteq> None \<and> properties poi_without_id \<noteq> None \<and>
   properties poi_without_properties = None \<and>
   render_markers
     (\<lparr>showSearchAreaButton = False, searchCategory = Some ''coffee'',
       searchResults = [poi_with_id, poi_without_id],
       mapBounds = Some DEFAULT_MAP_BOUNDS, searchBounds = Some DEFAULT_MAP_BOUNDS\<rparr>) =
   Inr [\<lparr>key = Some ''poi.1'', marker_feature = poi_with_id, marker_category = Some ''coffee''\<rparr>,
        \<lparr>key = None, marker_feature = poi_without_id, marker_category = Some ''coffee''\<rparr>] \<and>
   render_markers
     (\<lparr>showSearchAreaButton = False, searchCategory = Some ''coffee'',
       searchResults = [poi_with_id, poi_without_id, poi_without_properties],
       mapBounds = Some DEFAULT_MAP_BOUNDS, searchBounds = Some DEFAULT_MAP_BOUNDS\<rparr>) =
   Inl TypeError"
proof -
  have p: "properties poi_with_id \<noteq> None" "properties poi_without_id \<noteq> None"
    "properties poi_without_properties = None"
    by (simp_all add: poi_with_id_def poi_without_id_def poi_without_properties_def)
  have k: "map_of (the (properties poi_with_id)) ''mapbox_id'' = Some ''poi.1''"
    "map_of (the (properties poi_without_id)) ''mapbox_id'' = None"
    by (simp_all add: poi_with_id_def poi_without_id_def)
  show ?thesis
    using p k
      render_markers_every_feature_or_TypeError
        [of "\<lparr>showSearchAreaButton = False, searchCategory = Some ''coffee'',
              searchResults = [poi_with_id, poi_without_id],
              mapBounds = Some DEFAULT_MAP_BOUNDS, searchBounds = Some DEFAULT_MAP_BOUNDS\<rparr>"]
      render_markers_every_feature_or_TypeError
        [of "\<lparr>showSearchAreaButton = False, searchCategory = Some ''coffee'',
              searchResults = [poi_with_id, poi_without_id, poi_without_properties],
              mapBounds = Some DEFAULT_MAP_BOUNDS, searchBounds = Some DEFAULT_MAP_BOUNDS\<rparr>"]
    by simp
qed

text \<open>
  C8 as written asks that a feature without its \<open>mapbox_id\<close> is dropped and that it never
  makes the render pass throw. For a result set that holds just a feature whose
  \<open>properties\<close> lack \<open>mapbox_id\<close>, the render pass yields that feature's element; for a result
  set that holds just a feature without \<open>properties\<close>, it throws.
\<close>

theorem render_markers_drop_counterexample:
  "map_of (the (properties poi_without_id)) ''mapbox_id'' = None \<and>
   render_markers
     (\<lparr>showSearchAreaButton = False, searchCategory = Some ''coffee'',
       searchResults = [poi_without_id],
       mapBounds = Some DEFAULT_MAP_BOUNDS, searchBounds = Some DEFAULT_MAP_BOUNDS\<rparr>) =
   Inr [\<lparr>key = None, marker_feature = poi_without_id, marker_category = Some ''coffee''\<rparr>] \<and>
   properties poi_without_properties = None \<and>
   render_markers
     (\<lparr>showSearchAreaButton = False, searchCategory = Some ''coffee'',
       searchResults = [poi_without_properties],
       mapBounds = Some DEFAULT_MAP_BOUNDS, searchBounds = Some DEFAULT_MAP_BOUNDS\<rparr>) =
   Inl TypeError"
  by (simp add: render_markers_def marker_of_def poi_without_id_def poi_without_properties_def)

end
